theory Spec2Isabelle
  imports Main "HOL-Library.AList"
begin

section \<open>Values, errors and caller-supplied functions\<close>

text \<open>
  The repository holds two versions of the function \<open>lazy(context, method)\<close>:
  \<^item> \<open>src/lazy.js\<close>, which keeps a boolean \<open>isMemoized\<close> beside \<open>subject\<close> in the closure of
    each declared property (the flag-based variant, suffix \<open>_flag\<close> below);
  \<^item> \<open>src/unnamed/part_000\<close>, whose getter assigns the resolved value back through the
    property (the self-rewriting variant, suffix \<open>_rw\<close> below).

  Values passed in by callers are primitives, references to plain objects and functions
  written by the caller. A caller function is known by a number; what it does when called
  and what its \<open>getCall\<close> property holds is looked up in a table \<open>F\<close>. Its body runs
  on a world \<open>'w\<close> outside the context (counters, random sources) and either returns a
  value or throws.

  Scope of the model:
  \<^item> a body does not call back into the engine on the same context (it does not read,
    assign or declare properties of \<open>this\<close>), and the functions the engine itself
    creates are not passed in as subjects;
  \<^item> the own properties of the context that \<open>lazy\<close> receives are data properties;
    \<open>lazy\<close> itself sees the inherited properties (lines 43 and 79 of \<open>lazy.js\<close> go
    through the prototype chain), and once \<open>lazy\<close> has returned, the names that are
    declared, read or assigned are names the prototype chain does not hold;
  \<^item> property names are strings;
  \<^item> both files are sloppy-mode code (neither has a strict-mode directive), so a rejected
    assignment or \<open>delete\<close> is silently ignored, while a rejected
    \<open>Object.defineProperty\<close> raises TypeError.
\<close>

datatype val = VUndefined | VNull | VBool bool | VNum int | VStr string | VObj nat | VFun nat

text \<open>What a property of the context can hold: a caller value, or the declaration
  function that \<open>lazy\<close> creates (lines 43 of \<open>lazy.js\<close>, 46 of \<open>part_000\<close>).\<close>

datatype jsval = Val val | DeclareFn

datatype error = TypeError | Thrown val

type_synonym 'a result = "error + 'a"

record 'w funs =
  getCall :: "nat \<Rightarrow> val"
  body :: "nat \<Rightarrow> 'w \<Rightarrow> val result \<times> 'w"

text \<open>\<open>typeof v === 'function'\<close>\<close>

fun is_function :: "val \<Rightarrow> bool" where
  "is_function (VFun f) = True"
| "is_function _ = False"

text \<open>\<open>subject.getCall\<close>, read only when \<open>subject\<close> is a function.\<close>

fun getCall_of :: "'w funs \<Rightarrow> val \<Rightarrow> val" where
  "getCall_of F (VFun f) = getCall F f"
| "getCall_of F _ = VUndefined"

section \<open>Objects with property descriptors\<close>

text \<open>
  A property is a data property (value, writable, enumerable, configurable) or an accessor
  property (enumerable, configurable) whose getter and setter are the pair of closures one
  call of the declaration function creates. The pair shares the variables of that call
  (\<open>subject\<close>, and \<open>isMemoized\<close> in \<open>lazy.js\<close>); nothing else refers to them, so they are
  kept with the property as \<open>'sl\<close>.
\<close>

datatype 'sl property = Data jsval bool bool bool | Accessor 'sl bool bool

fun enumerable :: "'sl property \<Rightarrow> bool" where
  "enumerable (Data v w e c) = e"
| "enumerable (Accessor env e c) = e"

fun configurable :: "'sl property \<Rightarrow> bool" where
  "configurable (Data v w e c) = c"
| "configurable (Accessor env e c) = c"

text \<open>The context as the caller hands it to \<open>lazy\<close>: own data properties, in creation
  order, the properties it inherits, and whether the object is extensible.\<close>

record field =
  fvalue :: val
  fwritable :: bool
  fenumerable :: bool
  fconfigurable :: bool

text \<open>
  A property that the context inherits through its prototype chain. For a data property:
  the value a read finds, and whether it is writable, so that an assignment on the
  context may shadow it. For an accessor property, an assignment on the context calls
  the inherited setter and makes no own property, and a read calls the inherited getter;
  it is given by what the two lines of \<open>lazy.js\<close> that go through the chain meet:
  whether the setter, called with the function at line 43, raises, and what the getter
  returns or raises at line 79. Setter and getter leave the own properties alone.
\<close>

datatype inherited = IData val bool | IAccessor "error option" "jsval result"

record plain_obj =
  entries :: "(string \<times> field) list"
  proto :: "(string \<times> inherited) list"
  can_extend :: bool

text \<open>
  What an object literal inherits from \<open>Object.prototype\<close>: writable built-in
  functions, numbered from 100 here, and the accessor \<open>__proto__\<close>. Its setter makes
  the function the prototype of the object, or raises TypeError when the object is not
  extensible; its getter then returns the function.
\<close>

definition object_prototype :: "bool \<Rightarrow> (string \<times> inherited) list" where
  "object_prototype ext =
     [(''constructor'', IData (VFun 100) True),
      (''__defineGetter__'', IData (VFun 101) True),
      (''__defineSetter__'', IData (VFun 102) True),
      (''hasOwnProperty'', IData (VFun 103) True),
      (''__lookupGetter__'', IData (VFun 104) True),
      (''__lookupSetter__'', IData (VFun 105) True),
      (''isPrototypeOf'', IData (VFun 106) True),
      (''propertyIsEnumerable'', IData (VFun 107) True),
      (''toString'', IData (VFun 108) True),
      (''valueOf'', IData (VFun 109) True),
      (''__proto__'', IAccessor (if ext then None else Some TypeError) (Inr DeclareFn)),
      (''toLocaleString'', IData (VFun 110) True)]"

definition lift_field :: "field \<Rightarrow> 'sl property" where
  "lift_field f = Data (Val (fvalue f)) (fwritable f) (fenumerable f) (fconfigurable f)"

definition lift_fields :: "(string \<times> field) list \<Rightarrow> (string \<times> 'sl property) list" where
  "lift_fields fs = map (\<lambda>(k, f). (k, lift_field f)) fs"

text \<open>
  The state one call of \<open>lazy\<close> closes over: the context (\<open>props\<close>, \<open>extensible\<close>), the
  array \<open>cache\<close> (\<open>push\<close> appends, \<open>pop\<close> takes the last element), and, for the
  caller functions, the world they run on and the log of the calls made.
\<close>

record ('w, 'sl) engine =
  props :: "(string \<times> 'sl property) list"
  extensible :: bool
  cache :: "string list"
  world :: 'w
  calls :: "nat list"

text \<open>
  \<open>Object.defineProperty(context, name, {get, set, configurable: true})\<close>, with
  \<open>enumerable: true\<close> too when \<open>enum = Some True\<close>. A new property needs an extensible
  object and takes \<open>false\<close> for the absent \<open>enumerable\<close>; an existing property must be
  configurable (the descriptor asks for \<open>configurable: true\<close>) and keeps its
  \<open>enumerable\<close> when the descriptor has none.
\<close>

definition defineAccessor ::
  "string \<Rightarrow> 'sl \<Rightarrow> bool option \<Rightarrow> ('w, 'sl) engine \<Rightarrow> ('w, 'sl) engine result" where
  "defineAccessor name env enum s =
     (case map_of (props s) name of
        None \<Rightarrow>
          if extensible s
          then Inr (s\<lparr>props := AList.update name
                      (Accessor env (case enum of None \<Rightarrow> False | Some e \<Rightarrow> e) True) (props s)\<rparr>)
          else Inl TypeError
      | Some cur \<Rightarrow>
          if configurable cur
          then Inr (s\<lparr>props := AList.update name
                      (Accessor env (case enum of None \<Rightarrow> enumerable cur | Some e \<Rightarrow> e) True) (props s)\<rparr>)
          else Inl TypeError)"

text \<open>
  The assignment \<open>context[name] = v\<close> in sloppy mode: a new writable, enumerable,
  configurable data property on an extensible object; a new value for a writable data
  property; a call of the setter of an accessor property; nothing otherwise.
\<close>

definition put :: "('sl \<Rightarrow> val \<Rightarrow> 'sl) \<Rightarrow> string \<Rightarrow> val \<Rightarrow> ('w, 'sl) engine \<Rightarrow> ('w, 'sl) engine" where
  "put setter name v s =
     (case map_of (props s) name of
        None \<Rightarrow>
          if extensible s
          then s\<lparr>props := AList.update name (Data (Val v) True True True) (props s)\<rparr>
          else s
      | Some (Data old w e c) \<Rightarrow>
          if w then s\<lparr>props := AList.update name (Data (Val v) w e c) (props s)\<rparr> else s
      | Some (Accessor env e c) \<Rightarrow>
          s\<lparr>props := AList.update name (Accessor (setter env v) e c) (props s)\<rparr>)"

text \<open>\<open>delete context[name]\<close> in sloppy mode: removes a configurable property, leaves a
  non-configurable one, and does nothing for an absent one; it never raises.\<close>

definition delete_prop :: "string \<Rightarrow> (string \<times> 'sl property) list \<Rightarrow> (string \<times> 'sl property) list" where
  "delete_prop name ps =
     (case map_of ps name of
        None \<Rightarrow> ps
      | Some p \<Rightarrow> if configurable p then AList.delete name ps else ps)"

text \<open>\<open>Object.keys(context)\<close>: the names of the own enumerable properties, in
  creation order (an engine lists names that are array indices first; the statements
  below do not depend on the order).\<close>

definition ownKeys :: "('w, 'sl) engine \<Rightarrow> string list" where
  "ownKeys s = map fst (filter (\<lambda>(k, p). enumerable p) (props s))"

text \<open>\<open>subject.call(this)\<close>: the body runs on the world and the call is logged. Calling
  what is not a function raises TypeError.\<close>

fun invoke :: "'w funs \<Rightarrow> val \<Rightarrow> ('w, 'sl) engine \<Rightarrow> val result \<times> ('w, 'sl) engine" where
  "invoke F (VFun f) s =
     (let (r, w') = body F f (world s) in (r, s\<lparr>world := w', calls := calls s @ [f]\<rparr>))"
| "invoke F v s = (Inl TypeError, s)"

text \<open>\<open>method = method || d\<close>: an omitted or empty name gives the default.\<close>

definition default_name :: "string \<Rightarrow> string option \<Rightarrow> string" where
  "default_name d method = (case method of None \<Rightarrow> d | Some m \<Rightarrow> if m = [] then d else m)"

section \<open>Restore (both files, lines 79 to 83)\<close>

text \<open>\<open>while (cache.length) { delete context[cache.pop()]; }\<close>\<close>

function restore :: "('w, 'sl) engine \<Rightarrow> ('w, 'sl) engine" where
  "restore s =
     (if cache s = [] then s
      else restore (s\<lparr>cache := butlast (cache s),
                      props := delete_prop (last (cache s)) (props s)\<rparr>))"
  by pat_completeness auto
termination
  by (relation "measure (\<lambda>s. length (cache s))") auto

declare restore.simps [simp del]

section \<open>The flag-based variant: \<open>src/lazy.js\<close>\<close>

record fslot =
  subject :: val
  isMemoized :: bool

text \<open>Lines 62 to 65: the setter.\<close>

definition set_flag :: "fslot \<Rightarrow> val \<Rightarrow> fslot" where
  "set_flag env v = \<lparr>subject = v, isMemoized = False\<rparr>"

text \<open>Lines 43 to 68: the declaration function. \<open>value = None\<close> is a call with one
  argument. The name is pushed before the property is defined.\<close>

definition declare_flag ::
  "string \<Rightarrow> val option \<Rightarrow> ('w, fslot) engine \<Rightarrow> unit result \<times> ('w, fslot) engine" where
  "declare_flag name value s =
     (let subj = (case value of Some v \<Rightarrow> v | None \<Rightarrow> VNull);
          s1 = s\<lparr>cache := cache s @ [name]\<rparr>
      in case defineAccessor name \<lparr>subject = subj, isMemoized = False\<rparr> None s1 of
           Inl e \<Rightarrow> (Inl e, s1)
         | Inr s2 \<Rightarrow> (Inr (), s2))"

text \<open>Reading \<open>context[name]\<close>; the accessor case is the getter of lines 50 to 61.\<close>

definition get_flag ::
  "'w funs \<Rightarrow> string \<Rightarrow> ('w, fslot) engine \<Rightarrow> jsval result \<times> ('w, fslot) engine" where
  "get_flag F name s =
     (case map_of (props s) name of
        None \<Rightarrow> (Inr (Val VUndefined), s)
      | Some (Data v w e c) \<Rightarrow> (Inr v, s)
      | Some (Accessor env e c) \<Rightarrow>
          if isMemoized env then (Inr (Val (subject env)), s)
          else
            let isFunction = is_function (subject env);
                isMocked = (isFunction \<and> is_function (getCall_of F (subject env)));
                s1 = s\<lparr>props := AList.update name (Accessor (env\<lparr>isMemoized := True\<rparr>) e c) (props s)\<rparr>
            in if isFunction \<and> \<not> isMocked
               then (case invoke F (subject env) s1 of
                       (Inl err, s2) \<Rightarrow> (Inl err, s2)
                     | (Inr v, s2) \<Rightarrow>
                         (Inr (Val v),
                          s2\<lparr>props := AList.update name
                                (Accessor \<lparr>subject = v, isMemoized = True\<rparr> e c) (props s2)\<rparr>))
               else (Inr (Val (subject env)), s1))"

text \<open>
  Line 43, \<open>context[method] = function ...\<close>, on the caller's context: a plain
  assignment, so the new property is writable, enumerable and configurable, an existing
  writable one keeps its attributes, and a rejected assignment changes nothing. Without
  an own property the assignment looks up the prototype chain: an inherited data property
  that is not writable rejects it, an inherited accessor takes it, and otherwise the
  object must be extensible.
\<close>

definition assign_method :: "plain_obj \<Rightarrow> string \<Rightarrow> (string \<times> 'sl property) list" where
  "assign_method ctx m =
     (case map_of (entries ctx) m of
        None \<Rightarrow>
          (case map_of (proto ctx) m of
             None \<Rightarrow>
               if can_extend ctx
               then AList.update m (Data DeclareFn True True True) (lift_fields (entries ctx))
               else lift_fields (entries ctx)
           | Some (IData v w) \<Rightarrow>
               if w \<and> can_extend ctx
               then AList.update m (Data DeclareFn True True True) (lift_fields (entries ctx))
               else lift_fields (entries ctx)
           | Some (IAccessor se gr) \<Rightarrow> lift_fields (entries ctx))
      | Some f \<Rightarrow>
          if fwritable f
          then AList.update m (Data DeclareFn (fwritable f) (fenumerable f) (fconfigurable f))
                 (lift_fields (entries ctx))
          else lift_fields (entries ctx))"

text \<open>The error that the assignment of line 43 raises: that of an inherited setter.\<close>

definition assign_raises :: "plain_obj \<Rightarrow> string \<Rightarrow> error option" where
  "assign_raises ctx m =
     (case map_of (entries ctx) m of
        None \<Rightarrow>
          (case map_of (proto ctx) m of
             None \<Rightarrow> None
           | Some (IData v w) \<Rightarrow> None
           | Some (IAccessor se gr) \<Rightarrow> se)
      | Some f \<Rightarrow> None)"

text \<open>What \<open>context[method]\<close> reads after that assignment: the function when the
  assignment took effect; otherwise the own value that rejected it, or else what is
  inherited, or else \<open>undefined\<close>.\<close>

definition method_after_assign :: "plain_obj \<Rightarrow> string \<Rightarrow> jsval result" where
  "method_after_assign ctx m =
     (case map_of (entries ctx) m of
        None \<Rightarrow>
          (case map_of (proto ctx) m of
             None \<Rightarrow> if can_extend ctx then Inr DeclareFn else Inr (Val VUndefined)
           | Some (IData v w) \<Rightarrow> if w \<and> can_extend ctx then Inr DeclareFn else Inr (Val v)
           | Some (IAccessor se gr) \<Rightarrow> gr)
      | Some f \<Rightarrow> if fwritable f then Inr DeclareFn else Inr (Val (fvalue f)))"

text \<open>
  Lines 38 to 86. With no context, line 43 assigns to a property of \<open>undefined\<close> and
  raises. Line 79 reads \<open>context[method]\<close> and assigns to a property of it, which
  raises when that is \<open>undefined\<close> or \<open>null\<close>; on any other value that is not the
  function the assignment of line 79 leaves the context alone and \<open>lazy\<close> returns it
  as it is.
\<close>

definition attach_flag ::
  "plain_obj option \<Rightarrow> string option \<Rightarrow> 'w \<Rightarrow> ('w, fslot) engine result" where
  "attach_flag context method w =
     (let m = default_name ''lazy'' method
      in case context of
           None \<Rightarrow> Inl TypeError
         | Some ctx \<Rightarrow>
             (case assign_raises ctx m of
                Some e \<Rightarrow> Inl e
              | None \<Rightarrow>
                  (case method_after_assign ctx m of
                     Inl e \<Rightarrow> Inl e
                   | Inr v \<Rightarrow>
                       if v = Val VUndefined \<or> v = Val VNull
                       then Inl TypeError
                       else Inr \<lparr>props = assign_method ctx m, extensible = can_extend ctx,
                                 cache = [], world = w, calls = []\<rparr>)))"

section \<open>The self-rewriting variant: \<open>src/unnamed/part_000\<close>\<close>

text \<open>Lines 61 to 63: the setter. The closure holds \<open>subject\<close> only.\<close>

definition set_rw :: "val \<Rightarrow> val \<Rightarrow> val" where
  "set_rw env v = v"

text \<open>Lines 46 to 67: the declaration function.\<close>

definition declare_rw ::
  "string \<Rightarrow> val option \<Rightarrow> ('w, val) engine \<Rightarrow> unit result \<times> ('w, val) engine" where
  "declare_rw name value s =
     (let subj = (case value of Some v \<Rightarrow> v | None \<Rightarrow> VNull);
          s1 = s\<lparr>cache := cache s @ [name]\<rparr>
      in case defineAccessor name subj (Some True) s1 of
           Inl e \<Rightarrow> (Inl e, s1)
         | Inr s2 \<Rightarrow> (Inr (), s2))"

text \<open>Reading \<open>context[name]\<close>; the accessor case is the getter of lines 52 to 60, whose
  \<open>return context[name] = ...\<close> assigns through the property and returns the value
  assigned.\<close>

definition get_rw ::
  "'w funs \<Rightarrow> string \<Rightarrow> ('w, val) engine \<Rightarrow> jsval result \<times> ('w, val) engine" where
  "get_rw F name s =
     (case map_of (props s) name of
        None \<Rightarrow> (Inr (Val VUndefined), s)
      | Some (Data v w e c) \<Rightarrow> (Inr v, s)
      | Some (Accessor subj e c) \<Rightarrow>
          let isFunction = is_function subj;
              isMocked = (isFunction \<and> is_function (getCall_of F subj))
          in if isFunction \<and> \<not> isMocked
             then (case invoke F subj s of
                     (Inl err, s1) \<Rightarrow> (Inl err, s1)
                   | (Inr v, s1) \<Rightarrow> (Inr (Val v), put set_rw name v s1))
             else (Inr (Val subj), put set_rw name subj s))"

text \<open>
  Line 45, \<open>Object.defineProperty(context, method, {value: function ...})\<close>, on the
  caller's context. A new property needs an extensible object and is not writable, not
  enumerable and not configurable. An existing property keeps its attributes and takes the
  new value, unless it is neither configurable nor writable: the function is new, so it is
  not the value already there, and the definition is rejected.
\<close>

definition define_method :: "plain_obj \<Rightarrow> string \<Rightarrow> (string \<times> 'sl property) list result" where
  "define_method ctx m =
     (case map_of (entries ctx) m of
        None \<Rightarrow>
          if can_extend ctx
          then Inr (AList.update m (Data DeclareFn False False False) (lift_fields (entries ctx)))
          else Inl TypeError
      | Some f \<Rightarrow>
          if \<not> fconfigurable f \<and> \<not> fwritable f then Inl TypeError
          else Inr (AList.update m (Data DeclareFn (fwritable f) (fenumerable f) (fconfigurable f))
                      (lift_fields (entries ctx))))"

text \<open>Lines 39 to 86. \<open>context = context || {}\<close> gives a new empty object when no
  context is passed.\<close>

definition attach_rw ::
  "plain_obj option \<Rightarrow> string option \<Rightarrow> 'w \<Rightarrow> ('w, val) engine result" where
  "attach_rw context method w =
     (let m = default_name ''set'' method;
          ctx = (case context of
                   None \<Rightarrow> \<lparr>entries = [], proto = object_prototype True, can_extend = True\<rparr>
                 | Some c \<Rightarrow> c)
      in case define_method ctx m of
           Inl e \<Rightarrow> Inl e
         | Inr ps \<Rightarrow> Inr \<lparr>props = ps, extensible = can_extend ctx,
                          cache = [], world = w, calls = []\<rparr>)"

section \<open>Sequences of operations\<close>

datatype op = Declare string "val option" | Get string | Set string val | Restore

text \<open>One operation of a caller and what it evaluates to: the declaration function and
  \<open>restore\<close> return \<open>undefined\<close>, an assignment has the value assigned.\<close>

fun step_flag ::
  "'w funs \<Rightarrow> op \<Rightarrow> ('w, fslot) engine \<Rightarrow> jsval result \<times> ('w, fslot) engine" where
  "step_flag F (Declare n v) s =
     (case declare_flag n v s of
        (Inl e, s') \<Rightarrow> (Inl e, s')
      | (Inr u, s') \<Rightarrow> (Inr (Val VUndefined), s'))"
| "step_flag F (Get n) s = get_flag F n s"
| "step_flag F (Set n v) s = (Inr (Val v), put set_flag n v s)"
| "step_flag F Restore s = (Inr (Val VUndefined), restore s)"

fun step_rw ::
  "'w funs \<Rightarrow> op \<Rightarrow> ('w, val) engine \<Rightarrow> jsval result \<times> ('w, val) engine" where
  "step_rw F (Declare n v) s =
     (case declare_rw n v s of
        (Inl e, s') \<Rightarrow> (Inl e, s')
      | (Inr u, s') \<Rightarrow> (Inr (Val VUndefined), s'))"
| "step_rw F (Get n) s = get_rw F n s"
| "step_rw F (Set n v) s = (Inr (Val v), put set_rw n v s)"
| "step_rw F Restore s = (Inr (Val VUndefined), restore s)"

text \<open>A caller runs operations one after the other and sees each result; an error is a
  result like any other (the caller may catch it and go on).\<close>

fun run :: "('o \<Rightarrow> 's \<Rightarrow> 'r \<times> 's) \<Rightarrow> 'o list \<Rightarrow> 's \<Rightarrow> 'r list \<times> 's" where
  "run step [] s = ([], s)"
| "run step (x # xs) s =
     (let (r, s1) = step x s; (rs, s2) = run step xs s1 in (r # rs, s2))"

section \<open>Notions used in the statements\<close>

text \<open>The declaration function is the value of the data property \<open>m\<close> of the context.\<close>

definition installed :: "string \<Rightarrow> ('w, 'sl) engine \<Rightarrow> bool" where
  "installed m s = (case map_of (props s) m of Some (Data DeclareFn w e c) \<Rightarrow> True | _ \<Rightarrow> False)"

text \<open>\<open>Object.defineProperty\<close> with \<open>configurable: true\<close> is accepted at \<open>name\<close>.\<close>

definition definable :: "string \<Rightarrow> ('w, 'sl) engine \<Rightarrow> bool" where
  "definable name s = (case map_of (props s) name of None \<Rightarrow> extensible s | Some cur \<Rightarrow> configurable cur)"

text \<open>Line 43 of \<open>lazy.js\<close> takes effect on the context: the name is an own writable
  property, or it is not an own property, the object is extensible and what it inherits
  at that name, if anything, is a writable data property.\<close>

definition assignable :: "string \<Rightarrow> plain_obj \<Rightarrow> bool" where
  "assignable m ctx =
     (case map_of (entries ctx) m of
        None \<Rightarrow>
          (case map_of (proto ctx) m of
             None \<Rightarrow> can_extend ctx
           | Some (IData v w) \<Rightarrow> w \<and> can_extend ctx
           | Some (IAccessor se gr) \<Rightarrow> False)
      | Some f \<Rightarrow> fwritable f)"

text \<open>Line 45 of \<open>part_000\<close> is accepted on the context: the name is free on an
  extensible object, or names a property that is configurable or writable.\<close>

definition redefinable :: "string \<Rightarrow> plain_obj \<Rightarrow> bool" where
  "redefinable m ctx =
     (case map_of (entries ctx) m of None \<Rightarrow> can_extend ctx | Some f \<Rightarrow> fconfigurable f \<or> fwritable f)"

text \<open>A sequence of calls of the declaration function.\<close>

definition declarations :: "(string \<times> val option) list \<Rightarrow> op list" where
  "declarations ds = map (\<lambda>(n, v). Declare n v) ds"

text \<open>The names whose declaration returned normally, given the declarations and their results.\<close>

definition accepted :: "(string \<times> val option) list \<Rightarrow> jsval result list \<Rightarrow> string list" where
  "accepted ds rs = map (\<lambda>(d, r). fst d) (filter (\<lambda>(d, r). r = Inr (Val VUndefined)) (zip ds rs))"

text \<open>\<open>arguments.length === 2 ? value : null\<close>\<close>

definition subject_of :: "val option \<Rightarrow> val" where
  "subject_of value = (case value of Some v \<Rightarrow> v | None \<Rightarrow> VNull)"

text \<open>A registered name that holds a configurable property: what \<open>restore\<close> deletes.\<close>

definition deletable :: "string \<Rightarrow> ('w, 'sl) engine \<Rightarrow> bool" where
  "deletable k s \<longleftrightarrow> k \<in> set (cache s) \<and> (case map_of (props s) k of None \<Rightarrow> False | Some p \<Rightarrow> configurable p)"

text \<open>\<open>isFunction && !isMocked\<close>: the getter calls the subject.\<close>

definition invocable :: "'w funs \<Rightarrow> val \<Rightarrow> bool" where
  "invocable F v \<longleftrightarrow> is_function v \<and> \<not> (is_function v \<and> is_function (getCall_of F v))"





text \<open>A registered name never holds the declaration function as a configurable property:
  the invariant that keeps \<open>restore\<close> from deleting the declaration function.\<close>

definition guarded :: "('w, 'sl) engine \<Rightarrow> bool" where
  "guarded s = list_all (\<lambda>k. case map_of (props s) k of
                                  Some (Data DeclareFn w e c) \<Rightarrow> \<not> c
                                | _ \<Rightarrow> True) (cache s)"

section \<open>Concrete inputs\<close>

text \<open>A table of caller functions on a counter: function 0 returns function 1, function 2
  throws, function 9 is a spy (its \<open>getCall\<close> is a function), every other function
  returns the counter; each call increments the counter.\<close>

definition demo_table :: "nat funs" where
  "demo_table =
     \<lparr>getCall = (\<lambda>f. if f = 9 then VFun 8 else VUndefined),
      body = (\<lambda>f w. if f = 0 then (Inr (VFun 1), Suc w)
                     else if f = 2 then (Inl (Thrown (VStr ''boom'')), Suc w)
                     else (Inr (VNum (int w)), Suc w))\<rparr>"


text \<open>\<open>{}\<close>, and \<open>Object.preventExtensions({})\<close>. The contexts of this section are
  made from object literals, so they inherit from \<open>Object.prototype\<close>.\<close>

definition empty_ctx :: plain_obj where
  "empty_ctx = \<lparr>entries = [], proto = object_prototype True, can_extend = True\<rparr>"

definition frozen_ctx :: plain_obj where
  "frozen_ctx = \<lparr>entries = [], proto = object_prototype False, can_extend = False\<rparr>"

text \<open>An object with a non-configurable property \<open>x\<close>.\<close>

definition locked_ctx :: plain_obj where
  "locked_ctx =
     \<lparr>entries = [(''x'', \<lparr>fvalue = VNum 1, fwritable = True, fenumerable = True, fconfigurable = False\<rparr>)],
      proto = object_prototype True, can_extend = True\<rparr>"



text \<open>What \<open>lazy\<close> returns on these contexts (shown below).\<close>

definition init_flag :: "(nat, fslot) engine" where
  "init_flag = \<lparr>props = [(''lazy'', Data DeclareFn True True True)],
                extensible = True, cache = [], world = 0, calls = []\<rparr>"

definition init_rw :: "(nat, val) engine" where
  "init_rw = \<lparr>props = [(''set'', Data DeclareFn False False False)],
              extensible = True, cache = [], world = 0, calls = []\<rparr>"

definition locked_flag :: "(nat, fslot) engine" where
  "locked_flag = \<lparr>props = [(''x'', Data (Val (VNum 1)) True True False),
                           (''lazy'', Data DeclareFn True True True)],
                  extensible = True, cache = [], world = 0, calls = []\<rparr>"

definition locked_rw :: "(nat, val) engine" where
  "locked_rw = \<lparr>props = [(''x'', Data (Val (VNum 1)) True True False),
                         (''set'', Data DeclareFn False False False)],
                extensible = True, cache = [], world = 0, calls = []\<rparr>"





text \<open>The two variants after \<open>lazy\<close> on that object and a declaration of
  \<open>foo\<close> with the literal 7 (shown below).\<close>

definition demo_flag :: "(nat, fslot) engine" where
  "demo_flag =
     \<lparr>props = [(''x'', Data (Val (VNum 1)) True True False),
               (''lazy'', Data DeclareFn True True True),
               (''foo'', Accessor \<lparr>subject = VNum 7, isMemoized = False\<rparr> False True)],
      extensible = True, cache = [''foo''], world = 0, calls = []\<rparr>"

definition demo_rw :: "(nat, val) engine" where
  "demo_rw =
     \<lparr>props = [(''x'', Data (Val (VNum 1)) True True False),
               (''set'', Data DeclareFn False False False),
               (''foo'', Accessor (VNum 7) True True)],
      extensible = True, cache = [''foo''], world = 0, calls = []\<rparr>"




section \<open>Basic facts about \<open>restore\<close>\<close>

lemma map_of_delete_prop:
  "map_of (delete_prop k ps) k' =
     (if k' = k \<and> (\<exists>p. map_of ps k = Some p \<and> configurable p) then None else map_of ps k')"
  by (auto simp: delete_prop_def AList.delete_conv' split: option.splits)

lemma restore_Nil: "cache s = [] \<Longrightarrow> restore s = s"
  by (subst restore.simps) simp

lemma restore_snoc:
  "cache s = c @ [k] \<Longrightarrow> restore s = restore (s\<lparr>cache := c, props := delete_prop k (props s)\<rparr>)"
  by (subst restore.simps) simp

lemma cache_restore: "cache (restore s) = []"
  by (induction s rule: restore.induct) (subst restore.simps, simp)

lemma restore_idem: "restore (restore s) = restore s"
  by (rule restore_Nil) (rule cache_restore)


lemma restore_world: "world (restore s) = world s"
  by (induction s rule: restore.induct) (subst restore.simps, simp)

lemma restore_calls: "calls (restore s) = calls s"
  by (induction s rule: restore.induct) (subst restore.simps, simp)


lemma map_of_restore_shrinks:
  "map_of (props (restore s)) k = None \<or> map_of (props (restore s)) k = map_of (props s) k"
proof (induction s rule: restore.induct)
  case (1 s)
  show ?case
  proof (cases "cache s = []")
    case True
    then show ?thesis by (simp add: restore_Nil)
  next
    case False
    let ?t = "s\<lparr>cache := butlast (cache s), props := delete_prop (last (cache s)) (props s)\<rparr>"
    have r: "restore s = restore ?t"
      using False by (subst restore.simps) simp
    from "1.IH" [OF False]
    have "map_of (props (restore ?t)) k = None \<or> map_of (props (restore ?t)) k = map_of (props ?t) k" .
    moreover have "map_of (props ?t) k = None \<or> map_of (props ?t) k = map_of (props s) k"
      by (simp add: map_of_delete_prop)
    ultimately show ?thesis unfolding r by auto
  qed
qed

lemma map_of_restore_registered:
  "k \<in> set (cache s) \<Longrightarrow> map_of (props s) k = Some p \<Longrightarrow> configurable p \<Longrightarrow>
   map_of (props (restore s)) k = None"
proof (induction s rule: restore.induct)
  case (1 s)
  from "1.prems" have ne: "cache s \<noteq> []" by auto
  let ?t = "s\<lparr>cache := butlast (cache s), props := delete_prop (last (cache s)) (props s)\<rparr>"
  have r: "restore s = restore ?t"
    using ne by (subst restore.simps) simp
  show ?case
  proof (cases "k = last (cache s)")
    case True
    then have "map_of (props ?t) k = None"
      using "1.prems" by (simp add: map_of_delete_prop)
    with map_of_restore_shrinks [of ?t k] show ?thesis unfolding r by auto
  next
    case False
    then have "k \<in> set (cache ?t)"
      using "1.prems"(1) ne by (cases "cache s" rule: rev_cases) auto
    moreover have "map_of (props ?t) k = Some p"
      using False "1.prems" by (simp add: map_of_delete_prop)
    ultimately show ?thesis
      using "1.IH" [OF ne] "1.prems"(3) unfolding r by simp
  qed
qed

lemma map_of_restore_blocked:
  "(case map_of (props s) k of None \<Rightarrow> True | Some p \<Rightarrow> \<not> configurable p) \<Longrightarrow>
   map_of (props (restore s)) k = map_of (props s) k"
proof (induction s rule: restore.induct)
  case (1 s)
  show ?case
  proof (cases "cache s = []")
    case True
    then show ?thesis by (simp add: restore_Nil)
  next
    case False
    let ?t = "s\<lparr>cache := butlast (cache s), props := delete_prop (last (cache s)) (props s)\<rparr>"
    have r: "restore s = restore ?t"
      using False by (subst restore.simps) simp
    have same: "map_of (props ?t) k = map_of (props s) k"
      using "1.prems" by (auto simp: map_of_delete_prop split: option.splits)
    with "1.prems" have "case map_of (props ?t) k of None \<Rightarrow> True | Some p \<Rightarrow> \<not> configurable p"
      by simp
    from "1.IH" [OF False this] same show ?thesis
      unfolding r by simp
  qed
qed

lemma restore_deletable: "deletable k s \<Longrightarrow> map_of (props (restore s)) k = None"
  by (auto simp: deletable_def split: option.splits intro: map_of_restore_registered)

section \<open>Basic facts about the declaration function\<close>

lemma defineAccessor_definable:
  "definable n s \<Longrightarrow>
   defineAccessor n env en s =
     Inr (s\<lparr>props := AList.update n
            (Accessor env (case en of None \<Rightarrow> (case map_of (props s) n of None \<Rightarrow> False | Some cur \<Rightarrow> enumerable cur)
                                     | Some e \<Rightarrow> e) True) (props s)\<rparr>)"
  by (auto simp: definable_def defineAccessor_def split: option.splits)

lemma defineAccessor_not_definable:
  "\<not> definable n s \<Longrightarrow> defineAccessor n env en s = Inl TypeError"
  by (auto simp: definable_def defineAccessor_def split: option.splits)

lemma definable_cache [simp]: "definable n (s\<lparr>cache := c\<rparr>) = definable n s"
  by (simp add: definable_def split: option.splits)

lemma declare_flag_definable:
  "definable n s \<Longrightarrow>
   declare_flag n v s =
     (Inr (), s\<lparr>cache := cache s @ [n],
                props := AList.update n
                  (Accessor \<lparr>subject = subject_of v, isMemoized = False\<rparr>
                     (case map_of (props s) n of None \<Rightarrow> False | Some cur \<Rightarrow> enumerable cur) True) (props s)\<rparr>)"
  by (simp add: declare_flag_def Let_def defineAccessor_definable subject_of_def)

lemma declare_flag_not_definable:
  "\<not> definable n s \<Longrightarrow> declare_flag n v s = (Inl TypeError, s\<lparr>cache := cache s @ [n]\<rparr>)"
  by (simp add: declare_flag_def Let_def defineAccessor_not_definable)

lemma declare_rw_definable:
  "definable n s \<Longrightarrow>
   declare_rw n v s =
     (Inr (), s\<lparr>cache := cache s @ [n],
                props := AList.update n (Accessor (subject_of v) True True) (props s)\<rparr>)"
  by (simp add: declare_rw_def Let_def defineAccessor_definable subject_of_def)

lemma declare_rw_not_definable:
  "\<not> definable n s \<Longrightarrow> declare_rw n v s = (Inl TypeError, s\<lparr>cache := cache s @ [n]\<rparr>)"
  by (simp add: declare_rw_def Let_def defineAccessor_not_definable)

lemma declare_flag_ok_iff: "fst (declare_flag n v s) = Inr () \<longleftrightarrow> definable n s"
  by (cases "definable n s") (simp_all add: declare_flag_definable declare_flag_not_definable)

lemma declare_rw_ok_iff: "fst (declare_rw n v s) = Inr () \<longleftrightarrow> definable n s"
  by (cases "definable n s") (simp_all add: declare_rw_definable declare_rw_not_definable)

section \<open>Basic facts about sequences of operations\<close>

lemma run_Cons_fst:
  "fst (run step (x # xs) s) = fst (step x s) # fst (run step xs (snd (step x s)))"
  by (simp add: split_beta)

lemma run_Cons_snd:
  "snd (run step (x # xs) s) = snd (run step xs (snd (step x s)))"
  by (simp add: split_beta)

lemma step_flag_Declare_fst:
  "fst (step_flag F (Declare n v) s) = Inr (Val VUndefined) \<longleftrightarrow> definable n s"
  by (cases "definable n s") (simp_all add: declare_flag_definable declare_flag_not_definable)

lemma step_flag_Declare_snd:
  "snd (step_flag F (Declare n v) s) = snd (declare_flag n v s)"
  by (cases "definable n s") (simp_all add: declare_flag_definable declare_flag_not_definable)

lemma step_rw_Declare_fst:
  "fst (step_rw F (Declare n v) s) = Inr (Val VUndefined) \<longleftrightarrow> definable n s"
  by (cases "definable n s") (simp_all add: declare_rw_definable declare_rw_not_definable)

lemma step_rw_Declare_snd:
  "snd (step_rw F (Declare n v) s) = snd (declare_rw n v s)"
  by (cases "definable n s") (simp_all add: declare_rw_definable declare_rw_not_definable)

section \<open>Basic facts about the getters\<close>

lemma invocable_VFun [simp]: "invocable F (VFun f) \<longleftrightarrow> \<not> is_function (getCall F f)"
  by (simp add: invocable_def)

lemma not_invocable_simps [simp]:
  "\<not> invocable F VUndefined" "\<not> invocable F VNull" "\<not> invocable F (VBool b)"
  "\<not> invocable F (VNum i)" "\<not> invocable F (VStr x)" "\<not> invocable F (VObj a)"
  by (simp_all add: invocable_def)



lemma get_flag_memoized:
  "map_of (props s) n = Some (Accessor env e c) \<Longrightarrow> isMemoized env \<Longrightarrow>
   get_flag F n s = (Inr (Val (subject env)), s)"
  by (simp add: get_flag_def)

lemma get_flag_literal:
  "map_of (props s) n = Some (Accessor env e c) \<Longrightarrow> \<not> isMemoized env \<Longrightarrow>
   \<not> invocable F (subject env) \<Longrightarrow>
   get_flag F n s =
     (Inr (Val (subject env)),
      s\<lparr>props := AList.update n (Accessor (env\<lparr>isMemoized := True\<rparr>) e c) (props s)\<rparr>)"
  by (auto simp: get_flag_def invocable_def Let_def)

lemma get_flag_factory:
  "map_of (props s) n = Some (Accessor env e c) \<Longrightarrow> \<not> isMemoized env \<Longrightarrow>
   subject env = VFun f \<Longrightarrow> \<not> is_function (getCall F f) \<Longrightarrow>
   body F f (world s) = (Inr v, w') \<Longrightarrow>
   get_flag F n s =
     (Inr (Val v),
      s\<lparr>props := AList.update n (Accessor \<lparr>subject = v, isMemoized = True\<rparr> e c) (props s),
        world := w', calls := calls s @ [f]\<rparr>)"
  by (simp add: get_flag_def Let_def)

lemma get_flag_throws:
  "map_of (props s) n = Some (Accessor env e c) \<Longrightarrow> \<not> isMemoized env \<Longrightarrow>
   subject env = VFun f \<Longrightarrow> \<not> is_function (getCall F f) \<Longrightarrow>
   body F f (world s) = (Inl err, w') \<Longrightarrow>
   get_flag F n s =
     (Inl err,
      s\<lparr>props := AList.update n (Accessor (env\<lparr>isMemoized := True\<rparr>) e c) (props s),
        world := w', calls := calls s @ [f]\<rparr>)"
  by (simp add: get_flag_def Let_def)



lemma put_accessor:
  "map_of (props s) n = Some (Accessor env e c) \<Longrightarrow>
   put setter n v s = s\<lparr>props := AList.update n (Accessor (setter env v) e c) (props s)\<rparr>"
  by (simp add: put_def)

lemma get_rw_literal:
  "map_of (props s) n = Some (Accessor subj e c) \<Longrightarrow> \<not> invocable F subj \<Longrightarrow>
   get_rw F n s = (Inr (Val subj), s)"
  by (auto simp: get_rw_def invocable_def Let_def put_accessor set_rw_def AList.update_triv)

lemma get_rw_factory:
  "map_of (props s) n = Some (Accessor (VFun f) e c) \<Longrightarrow> \<not> is_function (getCall F f) \<Longrightarrow>
   body F f (world s) = (Inr v, w') \<Longrightarrow>
   get_rw F n s =
     (Inr (Val v),
      s\<lparr>world := w', calls := calls s @ [f],
        props := AList.update n (Accessor v e c) (props s)\<rparr>)"
  by (simp add: get_rw_def Let_def put_accessor set_rw_def)

lemma get_rw_throws:
  "map_of (props s) n = Some (Accessor (VFun f) e c) \<Longrightarrow> \<not> is_function (getCall F f) \<Longrightarrow>
   body F f (world s) = (Inl err, w') \<Longrightarrow>
   get_rw F n s = (Inl err, s\<lparr>world := w', calls := calls s @ [f]\<rparr>)"
  by (simp add: get_rw_def Let_def)

lemma reads_flag_memoized:
  "map_of (props s) n = Some (Accessor env e c) \<Longrightarrow> isMemoized env \<Longrightarrow>
   run (step_flag F) (replicate k (Get n)) s = (replicate k (Inr (Val (subject env))), s)"
  by (induction k) (simp_all add: get_flag_memoized)

lemma reads_flag_literal:
  assumes "map_of (props s) n = Some (Accessor env e c)" and "\<not> invocable F (subject env)"
  shows "fst (run (step_flag F) (replicate k (Get n)) s) = replicate k (Inr (Val (subject env)))
       \<and> calls (snd (run (step_flag F) (replicate k (Get n)) s)) = calls s
       \<and> world (snd (run (step_flag F) (replicate k (Get n)) s)) = world s"
proof (cases k)
  case 0
  then show ?thesis by simp
next
  case (Suc j)
  show ?thesis
  proof (cases "isMemoized env")
    case True
    with assms show ?thesis by (simp add: reads_flag_memoized del: run.simps)
  next
    case False
    let ?s1 = "s\<lparr>props := AList.update n (Accessor (env\<lparr>isMemoized := True\<rparr>) e c) (props s)\<rparr>"
    have g: "get_flag F n s = (Inr (Val (subject env)), ?s1)"
      using assms(1) False assms(2) by (rule get_flag_literal)
    have "map_of (props ?s1) n = Some (Accessor (env\<lparr>isMemoized := True\<rparr>) e c)"
      by (simp add: AList.update_conv')
    then have "run (step_flag F) (replicate j (Get n)) ?s1 = (replicate j (Inr (Val (subject env))), ?s1)"
      using reads_flag_memoized [of ?s1 n "env\<lparr>isMemoized := True\<rparr>" e c F j] by simp
    with g Suc show ?thesis by simp
  qed
qed

lemma reads_rw_literal:
  "map_of (props s) n = Some (Accessor subj e c) \<Longrightarrow> \<not> invocable F subj \<Longrightarrow>
   run (step_rw F) (replicate k (Get n)) s = (replicate k (Inr (Val subj)), s)"
  by (induction k) (simp_all add: get_rw_literal)

section \<open>Basic facts about \<open>lazy\<close> itself\<close>

lemma map_of_lift_fields: "map_of (lift_fields fs) k = map_option lift_field (map_of fs k)"
  by (induction fs) (auto simp: lift_fields_def)



lemma attach_flag_assignable:
  "assignable (default_name ''lazy'' method) ctx \<Longrightarrow>
   attach_flag (Some ctx) method w =
     Inr \<lparr>props = AList.update (default_name ''lazy'' method)
                    (case map_of (entries ctx) (default_name ''lazy'' method) of
                       None \<Rightarrow> Data DeclareFn True True True
                     | Some f \<Rightarrow> Data DeclareFn (fwritable f) (fenumerable f) (fconfigurable f))
                    (lift_fields (entries ctx)),
          extensible = can_extend ctx, cache = [], world = w, calls = []\<rparr>"
  by (auto simp: attach_flag_def assignable_def method_after_assign_def assign_raises_def
             assign_method_def Let_def
           split: option.splits inherited.splits)

lemma attach_rw_redefinable:
  "redefinable (default_name ''set'' method) ctx \<Longrightarrow>
   attach_rw (Some ctx) method w =
     Inr \<lparr>props = AList.update (default_name ''set'' method)
                    (case map_of (entries ctx) (default_name ''set'' method) of
                       None \<Rightarrow> Data DeclareFn False False False
                     | Some f \<Rightarrow> Data DeclareFn (fwritable f) (fenumerable f) (fconfigurable f))
                    (lift_fields (entries ctx)),
          extensible = can_extend ctx, cache = [], world = w, calls = []\<rparr>"
  by (auto simp: attach_rw_def redefinable_def define_method_def Let_def split: option.splits)

lemma attach_rw_not_redefinable:
  "\<not> redefinable (default_name ''set'' method) ctx \<Longrightarrow> attach_rw (Some ctx) method w = Inl TypeError"
  by (auto simp: attach_rw_def redefinable_def define_method_def Let_def split: option.splits)


lemma declare_foo:
  "declare_flag ''foo'' (Some (VNum 7)) locked_flag = (Inr (), demo_flag)"
  "declare_rw ''foo'' (Some (VNum 7)) locked_rw = (Inr (), demo_rw)"
  by (simp_all add: declare_flag_def declare_rw_def defineAccessor_def
        locked_flag_def locked_rw_def demo_flag_def demo_rw_def)


text \<open>A method name that the context inherits: on \<open>{}\<close> the assignment of line 43 of
  \<open>lazy.js\<close> shadows \<open>toString\<close>; on \<open>Object.preventExtensions({})\<close> it is
  ignored, line 79 finds the inherited function, and \<open>lazy\<close> returns the context as
  it is. With \<open>__proto__\<close> the assignment goes to the inherited setter: no own
  property is made, and on the non-extensible object the setter raises. \<open>part_000\<close>
  defines an own property or raises.\<close>

lemma lazy_on_inherited_name:
  "attach_flag (Some empty_ctx) (Some ''toString'') (0::nat)
     = Inr \<lparr>props = [(''toString'', Data DeclareFn True True True)],
            extensible = True, cache = [], world = 0, calls = []\<rparr>"
  "attach_flag (Some frozen_ctx) (Some ''toString'') (0::nat)
     = Inr \<lparr>props = [], extensible = False, cache = [], world = 0, calls = []\<rparr>"
  "attach_rw (Some empty_ctx) (Some ''toString'') (0::nat)
     = Inr \<lparr>props = [(''toString'', Data DeclareFn False False False)],
            extensible = True, cache = [], world = 0, calls = []\<rparr>"
  "attach_rw (Some frozen_ctx) (Some ''toString'') (0::nat) = Inl TypeError"
  "attach_flag (Some empty_ctx) (Some ''__proto__'') (0::nat)
     = Inr \<lparr>props = [], extensible = True, cache = [], world = 0, calls = []\<rparr>"
  "attach_flag (Some frozen_ctx) (Some ''__proto__'') (0::nat) = Inl TypeError"
  "attach_rw (Some empty_ctx) (Some ''__proto__'') (0::nat)
     = Inr \<lparr>props = [(''__proto__'', Data DeclareFn False False False)],
            extensible = True, cache = [], world = 0, calls = []\<rparr>"
  by (simp_all add: attach_flag_def attach_rw_def empty_ctx_def frozen_ctx_def object_prototype_def
        default_name_def method_after_assign_def assign_raises_def assign_method_def define_method_def lift_fields_def)


section \<open>Memoization of a factory\<close>

text \<open>What each variant gets right. In \<open>lazy.js\<close> a factory that returns is called once
  and every read returns its value, whatever the value is. In \<open>part_000\<close> the same
  holds when the value is not a function that the getter would call.\<close>

lemma flag_factory_is_called_once:
  fixes s :: "('w, fslot) engine"
  assumes "definable n s" and "\<not> is_function (getCall F f)"
    and "body F f (world s) = (Inr v, w')"
  shows "fst (run (step_flag F) (replicate (Suc k) (Get n)) (snd (declare_flag n (Some (VFun f)) s)))
           = replicate (Suc k) (Inr (Val v))
       \<and> calls (snd (run (step_flag F) (replicate (Suc k) (Get n)) (snd (declare_flag n (Some (VFun f)) s))))
           = calls s @ [f]
       \<and> world (snd (run (step_flag F) (replicate (Suc k) (Get n)) (snd (declare_flag n (Some (VFun f)) s))))
           = w'"
proof -
  let ?s1 = "snd (declare_flag n (Some (VFun f)) s)"
  let ?e = "case map_of (props s) n of None \<Rightarrow> False | Some cur \<Rightarrow> enumerable cur"
  let ?env = "\<lparr>subject = VFun f, isMemoized = False\<rparr>"
  have p: "map_of (props ?s1) n = Some (Accessor ?env ?e True)"
    and c: "calls ?s1 = calls s" and w: "world ?s1 = world s"
    using assms(1) by (simp_all add: declare_flag_definable AList.update_conv' subject_of_def)
  let ?s2 = "?s1\<lparr>props := AList.update n (Accessor \<lparr>subject = v, isMemoized = True\<rparr> ?e True) (props ?s1),
                 world := w', calls := calls ?s1 @ [f]\<rparr>"
  have g: "get_flag F n ?s1 = (Inr (Val v), ?s2)"
    using get_flag_factory [OF p _ _ assms(2), where v = v and w' = w'] assms(3) w by simp
  have "map_of (props ?s2) n = Some (Accessor \<lparr>subject = v, isMemoized = True\<rparr> ?e True)"
    by (simp add: AList.update_conv')
  from reads_flag_memoized [OF this, of F k]
  have r: "run (step_flag F) (replicate k (Get n)) ?s2 = (replicate k (Inr (Val v)), ?s2)" by simp
  show ?thesis
    using g r c by simp
qed

lemma rw_factory_is_called_once:
  fixes s :: "('w, val) engine"
  assumes "definable n s" and "\<not> is_function (getCall F f)"
    and "body F f (world s) = (Inr v, w')" and "\<not> invocable F v"
  shows "fst (run (step_rw F) (replicate (Suc k) (Get n)) (snd (declare_rw n (Some (VFun f)) s)))
           = replicate (Suc k) (Inr (Val v))
       \<and> calls (snd (run (step_rw F) (replicate (Suc k) (Get n)) (snd (declare_rw n (Some (VFun f)) s))))
           = calls s @ [f]
       \<and> world (snd (run (step_rw F) (replicate (Suc k) (Get n)) (snd (declare_rw n (Some (VFun f)) s))))
           = w'"
proof -
  let ?s1 = "snd (declare_rw n (Some (VFun f)) s)"
  have p: "map_of (props ?s1) n = Some (Accessor (VFun f) True True)"
    and c: "calls ?s1 = calls s" and w: "world ?s1 = world s"
    using assms(1) by (simp_all add: declare_rw_definable AList.update_conv' subject_of_def)
  let ?s2 = "?s1\<lparr>world := w', calls := calls ?s1 @ [f],
                 props := AList.update n (Accessor v True True) (props ?s1)\<rparr>"
  have g: "get_rw F n ?s1 = (Inr (Val v), ?s2)"
    using get_rw_factory [OF p assms(2), where v = v and w' = w'] assms(3) w by simp
  have "map_of (props ?s2) n = Some (Accessor v True True)"
    by (simp add: AList.update_conv')
  from reads_rw_literal [OF this assms(4), of k]
  have r: "run (step_rw F) (replicate k (Get n)) ?s2 = (replicate k (Inr (Val v)), ?s2)" by simp
  show ?thesis
    using g r c by simp
qed

text \<open>Claim C1, in \<open>part_000\<close>, at the factory 0 that returns the function 1: the first
  read calls the factory and returns function 1; the getter has assigned that result
  through the setter, so it is the new subject, and the second read calls it and returns
  its result, the number 1. Two calls are logged, and the two reads differ. The claim
  asks for one call and for the same value at every read.\<close>

theorem self_rewriting_getter_calls_the_result:
  "attach_rw (Some empty_ctx) None (0::nat) = Inr init_rw
   \<and> \<not> is_function (getCall demo_table 0)
   \<and> body demo_table 0 (world init_rw) = (Inr (VFun 1), 1)
   \<and> fst (run (step_rw demo_table) [Declare ''n'' (Some (VFun 0)), Get ''n'', Get ''n''] init_rw)
       = [Inr (Val VUndefined), Inr (Val (VFun 1)), Inr (Val (VNum 1))]
   \<and> calls (snd (run (step_rw demo_table) [Declare ''n'' (Some (VFun 0)), Get ''n'', Get ''n''] init_rw))
       = [0, 1]"
  by (simp add: attach_rw_def empty_ctx_def object_prototype_def init_rw_def default_name_def define_method_def
        lift_fields_def declare_rw_def defineAccessor_def get_rw_def put_def set_rw_def
        demo_table_def)

section \<open>The two variants compared\<close>






lemma installed_other_fields [simp]:
  "installed m (s\<lparr>cache := c\<rparr>) = installed m s"
  "installed m (s\<lparr>world := w\<rparr>) = installed m s"
  "installed m (s\<lparr>calls := cs\<rparr>) = installed m s"
  by (simp_all add: installed_def)

















section \<open>A factory that throws\<close>

text \<open>What \<open>part_000\<close> does: the error reaches the reader, the properties are as
  before the read, and the next read calls the factory again.\<close>

lemma rw_retries_after_a_failed_call:
  fixes s :: "('w, val) engine"
  assumes "definable n s" and "\<not> is_function (getCall F f)"
    and "body F f (world s) = (Inl err, w')"
  shows "fst (get_rw F n (snd (declare_rw n (Some (VFun f)) s))) = Inl err
       \<and> props (snd (get_rw F n (snd (declare_rw n (Some (VFun f)) s))))
           = props (snd (declare_rw n (Some (VFun f)) s))
       \<and> calls (snd (get_rw F n (snd (get_rw F n (snd (declare_rw n (Some (VFun f)) s))))))
           = calls s @ [f, f]"
proof -
  let ?s1 = "snd (declare_rw n (Some (VFun f)) s)"
  have p: "map_of (props ?s1) n = Some (Accessor (VFun f) True True)"
    and c: "calls ?s1 = calls s" and w: "world ?s1 = world s"
    using assms(1) by (simp_all add: declare_rw_definable AList.update_conv' subject_of_def)
  let ?s2 = "?s1\<lparr>world := w', calls := calls ?s1 @ [f]\<rparr>"
  have g: "get_rw F n ?s1 = (Inl err, ?s2)"
    using get_rw_throws [OF p assms(2), where err = err and w' = w'] assms(3) w by simp
  have p2: "map_of (props ?s2) n = Some (Accessor (VFun f) True True)"
    using p by simp
  have "calls (snd (get_rw F n ?s2)) = calls ?s2 @ [f]"
    using p2 assms(2)
    by (cases "body F f (world ?s2)") (auto simp: get_rw_def Let_def put_def split: sum.splits)
  then show ?thesis
    using g c by simp
qed

text \<open>Claim C3, in \<open>lazy.js\<close>, at the factory 2 that throws: the getter sets
  \<open>isMemoized\<close> before the call, so the first read raises what the factory threw and
  the second read returns the stored subject, the factory itself, without calling it:
  one call is logged. The claim asks for the slot to stay unmemoized and for the second
  read to call the factory again.\<close>

theorem flag_getter_memoizes_a_failed_call:
  "attach_flag (Some empty_ctx) None (0::nat) = Inr init_flag
   \<and> body demo_table 2 (world init_flag) = (Inl (Thrown (VStr ''boom'')), 1)
   \<and> fst (run (step_flag demo_table) [Declare ''n'' (Some (VFun 2)), Get ''n'', Get ''n''] init_flag)
       = [Inr (Val VUndefined), Inl (Thrown (VStr ''boom'')), Inr (Val (VFun 2))]
   \<and> calls (snd (run (step_flag demo_table) [Declare ''n'' (Some (VFun 2)), Get ''n'', Get ''n''] init_flag))
       = [2]"
  by (simp add: attach_flag_def empty_ctx_def object_prototype_def init_flag_def default_name_def
        method_after_assign_def assign_raises_def assign_method_def lift_fields_def
        declare_flag_def defineAccessor_def get_flag_def demo_table_def)

section \<open>A declaration that fails\<close>

text \<open>Claim C4 fails as stated. On a context whose property \<open>x\<close> is not configurable,
  declaring \<open>x\<close> raises TypeError in both variants, and \<open>x\<close> is in the registry
  afterwards.\<close>

theorem failed_declare_is_registered:
  "attach_flag (Some locked_ctx) None (0::nat) = Inr locked_flag
   \<and> fst (declare_flag ''x'' (Some (VNum 2)) locked_flag) = Inl TypeError
   \<and> ''x'' \<in> set (cache (snd (declare_flag ''x'' (Some (VNum 2)) locked_flag)))
   \<and> attach_rw (Some locked_ctx) None (0::nat) = Inr locked_rw
   \<and> fst (declare_rw ''x'' (Some (VNum 2)) locked_rw) = Inl TypeError
   \<and> ''x'' \<in> set (cache (snd (declare_rw ''x'' (Some (VNum 2)) locked_rw)))"
  by (simp add: attach_flag_def attach_rw_def locked_ctx_def object_prototype_def locked_flag_def locked_rw_def
        default_name_def method_after_assign_def assign_raises_def assign_method_def define_method_def
        lift_fields_def lift_field_def declare_flag_def declare_rw_def defineAccessor_def)

text \<open>Claim C4 as the code has it. When the definition of the accessor is rejected, the
  declaration function raises TypeError, the context is as it was, and the name has
  been pushed: it is the last entry of the registry. The entry does no harm: the next
  \<open>restore\<close> empties the registry and leaves what the context holds at that name as
  it was.\<close>

theorem failed_declare_pushes_first:
  fixes sf :: "('w, fslot) engine" and sr :: "('w, val) engine"
  shows "(fst (declare_flag n v sf) \<noteq> Inr () \<longrightarrow>
            declare_flag n v sf = (Inl TypeError, sf\<lparr>cache := cache sf @ [n]\<rparr>)
          \<and> cache (restore (snd (declare_flag n v sf))) = []
          \<and> map_of (props (restore (snd (declare_flag n v sf)))) n = map_of (props sf) n)
       \<and> (fst (declare_rw n v sr) \<noteq> Inr () \<longrightarrow>
            declare_rw n v sr = (Inl TypeError, sr\<lparr>cache := cache sr @ [n]\<rparr>)
          \<and> cache (restore (snd (declare_rw n v sr))) = []
          \<and> map_of (props (restore (snd (declare_rw n v sr)))) n = map_of (props sr) n)"
proof (intro conjI impI)
  assume "fst (declare_flag n v sf) \<noteq> Inr ()"
  then have nd: "\<not> definable n sf" by (simp add: declare_flag_ok_iff)
  then show d: "declare_flag n v sf = (Inl TypeError, sf\<lparr>cache := cache sf @ [n]\<rparr>)"
    by (rule declare_flag_not_definable)
  show "cache (restore (snd (declare_flag n v sf))) = []" by (rule cache_restore)
  have "case map_of (props (sf\<lparr>cache := cache sf @ [n]\<rparr>)) n of None \<Rightarrow> True | Some p \<Rightarrow> \<not> configurable p"
    using nd by (auto simp: definable_def split: option.splits)
  from map_of_restore_blocked [OF this]
  show "map_of (props (restore (snd (declare_flag n v sf)))) n = map_of (props sf) n"
    by (simp add: d)
next
  assume "fst (declare_rw n v sr) \<noteq> Inr ()"
  then have nd: "\<not> definable n sr" by (simp add: declare_rw_ok_iff)
  then show d: "declare_rw n v sr = (Inl TypeError, sr\<lparr>cache := cache sr @ [n]\<rparr>)"
    by (rule declare_rw_not_definable)
  show "cache (restore (snd (declare_rw n v sr))) = []" by (rule cache_restore)
  have "case map_of (props (sr\<lparr>cache := cache sr @ [n]\<rparr>)) n of None \<Rightarrow> True | Some p \<Rightarrow> \<not> configurable p"
    using nd by (auto simp: definable_def split: option.splits)
  from map_of_restore_blocked [OF this]
  show "map_of (props (restore (snd (declare_rw n v sr)))) n = map_of (props sr) n"
    by (simp add: d)
qed

theorem failed_declare_pushes_first_witness:
  "fst (declare_flag ''x'' None locked_flag) \<noteq> Inr ()
   \<and> declare_flag ''x'' None locked_flag = (Inl TypeError, locked_flag\<lparr>cache := cache locked_flag @ [''x'']\<rparr>)
   \<and> map_of (props (restore (snd (declare_flag ''x'' None locked_flag)))) ''x'' = map_of (props locked_flag) ''x''
   \<and> fst (declare_rw ''set'' None locked_rw) \<noteq> Inr ()
   \<and> declare_rw ''set'' None locked_rw = (Inl TypeError, locked_rw\<lparr>cache := cache locked_rw @ [''set'']\<rparr>)
   \<and> map_of (props (restore (snd (declare_rw ''set'' None locked_rw)))) ''set'' = map_of (props locked_rw) ''set''"
proof -
  have h1: "fst (declare_flag ''x'' None locked_flag) \<noteq> Inr ()"
    by (simp add: declare_flag_def defineAccessor_def locked_flag_def)
  have h2: "fst (declare_rw ''set'' None locked_rw) \<noteq> Inr ()"
    by (simp add: declare_rw_def defineAccessor_def locked_rw_def)
  from failed_declare_pushes_first [of "''x''" None locked_flag] h1
  have a: "declare_flag ''x'' None locked_flag = (Inl TypeError, locked_flag\<lparr>cache := cache locked_flag @ [''x'']\<rparr>)
     \<and> map_of (props (restore (snd (declare_flag ''x'' None locked_flag)))) ''x'' = map_of (props locked_flag) ''x''"
    by blast
  from failed_declare_pushes_first [of "''set''" None _ locked_rw] h2
  have b: "declare_rw ''set'' None locked_rw = (Inl TypeError, locked_rw\<lparr>cache := cache locked_rw @ [''set'']\<rparr>)
     \<and> map_of (props (restore (snd (declare_rw ''set'' None locked_rw)))) ''set'' = map_of (props locked_rw) ''set''"
    by blast
  from h1 h2 a b show ?thesis by blast
qed

section \<open>The default method name\<close>

text \<open>Claim C5 fails as stated. \<open>lazy.js\<close> called on \<open>{}\<close> without a method name
  installs nothing at \<open>set\<close>; and \<open>part_000\<close> raises TypeError on an object that
  is not extensible.\<close>

theorem default_name_differs:
  "attach_flag (Some empty_ctx) None (0::nat) = Inr init_flag
   \<and> map_of (props init_flag) ''set'' = None
   \<and> \<not> installed ''set'' init_flag
   \<and> attach_rw (Some frozen_ctx) None (0::nat) = Inl TypeError"
  by (simp add: attach_flag_def attach_rw_def empty_ctx_def object_prototype_def frozen_ctx_def init_flag_def
        default_name_def method_after_assign_def assign_raises_def assign_method_def define_method_def
        lift_fields_def installed_def)

text \<open>Claim C5 as the code has it. Without a method name, \<open>lazy.js\<close> installs the
  declaration function at \<open>lazy\<close> and \<open>part_000\<close> installs it at \<open>set\<close>, on
  every context that takes the installation (the assignment of \<open>lazy.js\<close> takes
  effect, the definition of \<open>part_000\<close> is accepted); \<open>part_000\<close> called without a
  context installs it at \<open>set\<close> of a new object.\<close>

theorem default_method_names:
  fixes w :: 'w
  shows "(assignable ''lazy'' ctx \<longrightarrow>
            (\<exists>sf. attach_flag (Some ctx) None w = Inr sf \<and> installed ''lazy'' sf))
       \<and> (redefinable ''set'' ctx \<longrightarrow>
            (\<exists>sr. attach_rw (Some ctx) None w = Inr sr \<and> installed ''set'' sr))
       \<and> (\<exists>sr. attach_rw None None w = Inr sr \<and> installed ''set'' sr)"
proof (intro conjI impI)
  assume "assignable ''lazy'' ctx"
  then have "assignable (default_name ''lazy'' None) ctx" by (simp add: default_name_def)
  from attach_flag_assignable [OF this, of w]
  show "\<exists>sf. attach_flag (Some ctx) None w = Inr sf \<and> installed ''lazy'' sf"
    by (auto simp: default_name_def installed_def AList.update_conv' split: option.splits)
next
  assume "redefinable ''set'' ctx"
  then have "redefinable (default_name ''set'' None) ctx" by (simp add: default_name_def)
  from attach_rw_redefinable [OF this, of w]
  show "\<exists>sr. attach_rw (Some ctx) None w = Inr sr \<and> installed ''set'' sr"
    by (auto simp: default_name_def installed_def AList.update_conv' split: option.splits)
next
  show "\<exists>sr. attach_rw None None w = Inr sr \<and> installed ''set'' sr"
    by (simp add: attach_rw_def default_name_def define_method_def lift_fields_def installed_def)
qed

theorem default_method_names_witness:
  "assignable ''lazy'' empty_ctx
   \<and> attach_flag (Some empty_ctx) None (0::nat) = Inr init_flag \<and> installed ''lazy'' init_flag
   \<and> redefinable ''set'' empty_ctx
   \<and> attach_rw (Some empty_ctx) None (0::nat) = Inr init_rw \<and> installed ''set'' init_rw"
proof -
  have h1: "assignable ''lazy'' empty_ctx" by (simp add: assignable_def empty_ctx_def object_prototype_def)
  have h2: "redefinable ''set'' empty_ctx" by (simp add: redefinable_def empty_ctx_def object_prototype_def)
  have e1: "attach_flag (Some empty_ctx) None (0::nat) = Inr init_flag"
    by (simp add: attach_flag_def empty_ctx_def object_prototype_def init_flag_def default_name_def
          method_after_assign_def assign_raises_def assign_method_def lift_fields_def)
  have e2: "attach_rw (Some empty_ctx) None (0::nat) = Inr init_rw"
    by (simp add: attach_rw_def empty_ctx_def object_prototype_def init_rw_def default_name_def
          define_method_def lift_fields_def)
  from default_method_names [of empty_ctx "0::nat"] h1 h2 e1 e2
  show ?thesis by auto
qed

section \<open>Enumerable keys\<close>

text \<open>What \<open>part_000\<close> does: after declarations on a context with distinct property
  names, the enumerable keys are those the context had and the names whose declaration
  returned normally.\<close>

lemma set_ownKeys:
  "distinct (map fst (props s)) \<Longrightarrow>
   set (ownKeys s) = {k. case map_of (props s) k of None \<Rightarrow> False | Some p \<Rightarrow> enumerable p}"
proof -
  assume d: "distinct (map fst (props s))"
  have "k \<in> set (ownKeys s) \<longleftrightarrow> (\<exists>p. (k, p) \<in> set (props s) \<and> enumerable p)" for k
    by (force simp: ownKeys_def)
  moreover have "(\<exists>p. (k, p) \<in> set (props s) \<and> enumerable p)
      \<longleftrightarrow> (case map_of (props s) k of None \<Rightarrow> False | Some p \<Rightarrow> enumerable p)" for k
    by (cases "map_of (props s) k") (simp_all add: map_of_eq_Some_iff [OF d, symmetric])
  ultimately show ?thesis by blast
qed

lemma declare_rw_ownKeys:
  assumes "distinct (map fst (props s))"
  shows "distinct (map fst (props (snd (declare_rw n v s))))
       \<and> set (ownKeys (snd (declare_rw n v s)))
           = (if definable n s then insert n (set (ownKeys s)) else set (ownKeys s))"
proof (cases "definable n s")
  case True
  have d: "distinct (map fst (props (snd (declare_rw n v s))))"
    using assms True by (simp add: declare_rw_definable AList.distinct_update)
  have p: "map_of (props (snd (declare_rw n v s))) = (map_of (props s))(n \<mapsto> Accessor (subject_of v) True True)"
    using True by (simp add: declare_rw_definable AList.update_conv')
  show ?thesis
    using True d by (auto simp: set_ownKeys [OF d] set_ownKeys [OF assms] p split: option.splits)
next
  case False
  then have "props (snd (declare_rw n v s)) = props s"
    by (simp add: declare_rw_not_definable)
  with False assms show ?thesis by (simp add: ownKeys_def)
qed

lemma declarations_rw_ownKeys:
  "distinct (map fst (props s)) \<Longrightarrow>
   set (ownKeys (snd (run (step_rw F) (declarations ds) s)))
     = set (ownKeys s) \<union> set (accepted ds (fst (run (step_rw F) (declarations ds) s)))"
proof (induction ds arbitrary: s)
  case Nil
  then show ?case by (simp add: declarations_def accepted_def)
next
  case (Cons d ds)
  obtain n v where d: "d = (n, v)" by (cases d)
  let ?s1 = "snd (declare_rw n v s)"
  have unfold_fst: "fst (run (step_rw F) (declarations (d # ds)) s) =
      fst (step_rw F (Declare n v) s) # fst (run (step_rw F) (declarations ds) ?s1)"
    by (simp add: declarations_def d run_Cons_fst step_rw_Declare_snd del: run.simps step_rw.simps)
  have unfold_snd: "snd (run (step_rw F) (declarations (d # ds)) s) =
      snd (run (step_rw F) (declarations ds) ?s1)"
    by (simp add: declarations_def d run_Cons_snd step_rw_Declare_snd del: run.simps step_rw.simps)
  from declare_rw_ownKeys [OF Cons.prems, of n v]
  have dist: "distinct (map fst (props ?s1))"
    and keys: "set (ownKeys ?s1) = (if definable n s then insert n (set (ownKeys s)) else set (ownKeys s))"
    by simp_all
  have "set (accepted (d # ds) (fst (run (step_rw F) (declarations (d # ds)) s)))
        = (if definable n s then {n} else {}) \<union> set (accepted ds (fst (run (step_rw F) (declarations ds) ?s1)))"
    unfolding unfold_fst
    by (simp add: accepted_def d step_rw_Declare_fst del: step_rw.simps)
  with Cons.IH [OF dist] keys show ?case
    unfolding unfold_snd by auto
qed

lemma attach_rw_ownKeys:
  assumes "distinct (map fst (entries ctx))" and "attach_rw (Some ctx) method w = Inr s"
  shows "distinct (map fst (props s))
       \<and> set (ownKeys s) = {k. case map_of (entries ctx) k of None \<Rightarrow> False | Some f \<Rightarrow> fenumerable f}"
proof -
  let ?m = "default_name ''set'' method"
  have r: "redefinable ?m ctx"
    using assms(2) attach_rw_not_redefinable [of "method" "ctx" "w"] by auto
  from attach_rw_redefinable [OF r, of w] assms(2)
  have s: "props s = AList.update ?m
                    (case map_of (entries ctx) ?m of
                       None \<Rightarrow> Data DeclareFn False False False
                     | Some f \<Rightarrow> Data DeclareFn (fwritable f) (fenumerable f) (fconfigurable f))
                    (lift_fields (entries ctx))" by auto
  have "map fst (lift_fields (entries ctx) :: (string \<times> val property) list) = map fst (entries ctx)"
    by (simp add: lift_fields_def split_beta)
  then have d: "distinct (map fst (props s))"
    unfolding s using assms(1) by (simp add: AList.distinct_update)
  show ?thesis
    using d unfolding set_ownKeys [OF d]
    by (auto simp: s AList.update_conv' map_of_lift_fields lift_field_def split: option.splits if_splits)
qed

lemma rw_declared_names_are_enumerable:
  assumes "distinct (map fst (entries ctx))" and "attach_rw (Some ctx) method w = Inr s"
  shows "set (ownKeys (snd (run (step_rw F) (declarations ds) s)))
       = {k. case map_of (entries ctx) k of None \<Rightarrow> False | Some f \<Rightarrow> fenumerable f}
         \<union> set (accepted ds (fst (run (step_rw F) (declarations ds) s)))"
  using attach_rw_ownKeys [OF assms] declarations_rw_ownKeys [of s F ds] by simp

text \<open>Claim C6, in \<open>lazy.js\<close>, on \<open>{}\<close> with the declarations of \<open>foo\<close> and
  \<open>baz\<close>: both declarations return normally, and \<open>Object.keys\<close> lists the method
  name \<open>lazy\<close> only. The descriptor of line 49 has no \<open>enumerable\<close>, so the declared
  properties are not enumerable, and the method, installed by assignment, is. The claim
  asks for the two declared names and nothing the engine added.\<close>

theorem declared_names_not_enumerable_in_flag_variant:
  "attach_flag (Some empty_ctx) None (0::nat) = Inr init_flag
   \<and> fst (run (step_flag demo_table)
        [Declare ''foo'' (Some (VStr ''bar'')), Declare ''baz'' (Some (VStr ''qux''))] init_flag)
       = [Inr (Val VUndefined), Inr (Val VUndefined)]
   \<and> ownKeys (snd (run (step_flag demo_table)
        [Declare ''foo'' (Some (VStr ''bar'')), Declare ''baz'' (Some (VStr ''qux''))] init_flag))
       = [''lazy'']"
  by (simp add: attach_flag_def empty_ctx_def object_prototype_def init_flag_def default_name_def
        method_after_assign_def assign_raises_def assign_method_def lift_fields_def
        declare_flag_def defineAccessor_def ownKeys_def)

section \<open>Restore removes what was declared\<close>

lemma declare_flag_deletable_new:
  "definable n s \<Longrightarrow> deletable n (snd (declare_flag n v s))"
  by (simp add: declare_flag_definable deletable_def AList.update_conv')

lemma declare_flag_deletable_kept:
  "deletable k s \<Longrightarrow> deletable k (snd (declare_flag n v s))"
  by (cases "definable n s")
     (auto simp: declare_flag_definable declare_flag_not_definable deletable_def AList.update_conv'
           split: option.splits)

lemma declare_rw_deletable_new:
  "definable n s \<Longrightarrow> deletable n (snd (declare_rw n v s))"
  by (simp add: declare_rw_definable deletable_def AList.update_conv')

lemma declare_rw_deletable_kept:
  "deletable k s \<Longrightarrow> deletable k (snd (declare_rw n v s))"
  by (cases "definable n s")
     (auto simp: declare_rw_definable declare_rw_not_definable deletable_def AList.update_conv'
           split: option.splits)

lemma declarations_flag_deletable_kept:
  "deletable k s \<Longrightarrow> deletable k (snd (run (step_flag F) (declarations ds) s))"
proof (induction ds arbitrary: s)
  case Nil
  then show ?case by (simp add: declarations_def)
next
  case (Cons d ds)
  obtain n v where d: "d = (n, v)" by (cases d)
  have "deletable k (snd (declare_flag n v s))"
    using Cons.prems by (rule declare_flag_deletable_kept)
  from Cons.IH [OF this] show ?case
    by (simp add: declarations_def d run_Cons_snd step_flag_Declare_snd del: run.simps step_flag.simps)
qed

lemma declarations_rw_deletable_kept:
  "deletable k s \<Longrightarrow> deletable k (snd (run (step_rw F) (declarations ds) s))"
proof (induction ds arbitrary: s)
  case Nil
  then show ?case by (simp add: declarations_def)
next
  case (Cons d ds)
  obtain n v where d: "d = (n, v)" by (cases d)
  have "deletable k (snd (declare_rw n v s))"
    using Cons.prems by (rule declare_rw_deletable_kept)
  from Cons.IH [OF this] show ?case
    by (simp add: declarations_def d run_Cons_snd step_rw_Declare_snd del: run.simps step_rw.simps)
qed

lemma declarations_flag_deletable:
  "i < length ds \<Longrightarrow> fst (run (step_flag F) (declarations ds) s) ! i = Inr (Val VUndefined) \<Longrightarrow>
   deletable (fst (ds ! i)) (snd (run (step_flag F) (declarations ds) s))"
proof (induction ds arbitrary: s i)
  case Nil
  then show ?case by simp
next
  case (Cons d ds)
  obtain n v where d: "d = (n, v)" by (cases d)
  have unfold_fst: "fst (run (step_flag F) (declarations (d # ds)) s) =
      fst (step_flag F (Declare n v) s) # fst (run (step_flag F) (declarations ds) (snd (declare_flag n v s)))"
    by (simp add: declarations_def d run_Cons_fst step_flag_Declare_snd del: run.simps step_flag.simps)
  have unfold_snd: "snd (run (step_flag F) (declarations (d # ds)) s) =
      snd (run (step_flag F) (declarations ds) (snd (declare_flag n v s)))"
    by (simp add: declarations_def d run_Cons_snd step_flag_Declare_snd del: run.simps step_flag.simps)
  show ?case
  proof (cases i)
    case 0
    with Cons.prems have "definable n s"
      unfolding unfold_fst by (simp add: step_flag_Declare_fst del: step_flag.simps)
    then have "deletable n (snd (declare_flag n v s))"
      by (rule declare_flag_deletable_new)
    then show ?thesis
      unfolding unfold_snd using 0 d by (simp add: declarations_flag_deletable_kept)
  next
    case (Suc j)
    with Cons.prems have "j < length ds"
      and "fst (run (step_flag F) (declarations ds) (snd (declare_flag n v s))) ! j = Inr (Val VUndefined)"
      unfolding unfold_fst by simp_all
    from Cons.IH [OF this] show ?thesis
      unfolding unfold_snd using Suc by simp
  qed
qed

lemma declarations_rw_deletable:
  "i < length ds \<Longrightarrow> fst (run (step_rw F) (declarations ds) s) ! i = Inr (Val VUndefined) \<Longrightarrow>
   deletable (fst (ds ! i)) (snd (run (step_rw F) (declarations ds) s))"
proof (induction ds arbitrary: s i)
  case Nil
  then show ?case by simp
next
  case (Cons d ds)
  obtain n v where d: "d = (n, v)" by (cases d)
  have unfold_fst: "fst (run (step_rw F) (declarations (d # ds)) s) =
      fst (step_rw F (Declare n v) s) # fst (run (step_rw F) (declarations ds) (snd (declare_rw n v s)))"
    by (simp add: declarations_def d run_Cons_fst step_rw_Declare_snd del: run.simps step_rw.simps)
  have unfold_snd: "snd (run (step_rw F) (declarations (d # ds)) s) =
      snd (run (step_rw F) (declarations ds) (snd (declare_rw n v s)))"
    by (simp add: declarations_def d run_Cons_snd step_rw_Declare_snd del: run.simps step_rw.simps)
  show ?case
  proof (cases i)
    case 0
    with Cons.prems have "definable n s"
      unfolding unfold_fst by (simp add: step_rw_Declare_fst del: step_rw.simps)
    then have "deletable n (snd (declare_rw n v s))"
      by (rule declare_rw_deletable_new)
    then show ?thesis
      unfolding unfold_snd using 0 d by (simp add: declarations_rw_deletable_kept)
  next
    case (Suc j)
    with Cons.prems have "j < length ds"
      and "fst (run (step_rw F) (declarations ds) (snd (declare_rw n v s))) ! j = Inr (Val VUndefined)"
      unfolding unfold_fst by simp_all
    from Cons.IH [OF this] show ?thesis
      unfolding unfold_snd using Suc by simp
  qed
qed

text \<open>Claim C7. After any sequence of declarations, from any state of either variant,
  \<open>restore\<close> leaves the context without a property at every name whose declaration
  returned normally, and leaves the registry empty; a second \<open>restore\<close> changes
  nothing. \<open>restore\<close> has no failing branch: \<open>pop\<close> and a sloppy-mode
  \<open>delete\<close> do not raise, also when a name is registered twice and the second
  \<open>delete\<close> finds no property.\<close>

theorem restore_removes_every_declared_name:
  fixes sf :: "('w, fslot) engine" and sr :: "('w, val) engine"
  shows "(i < length ds \<and> fst (run (step_flag F) (declarations ds) sf) ! i = Inr (Val VUndefined) \<longrightarrow>
            map_of (props (restore (snd (run (step_flag F) (declarations ds) sf)))) (fst (ds ! i)) = None)
       \<and> cache (restore (snd (run (step_flag F) (declarations ds) sf))) = []
       \<and> restore (restore (snd (run (step_flag F) (declarations ds) sf))) =
           restore (snd (run (step_flag F) (declarations ds) sf))
       \<and> (i < length ds \<and> fst (run (step_rw F) (declarations ds) sr) ! i = Inr (Val VUndefined) \<longrightarrow>
            map_of (props (restore (snd (run (step_rw F) (declarations ds) sr)))) (fst (ds ! i)) = None)
       \<and> cache (restore (snd (run (step_rw F) (declarations ds) sr))) = []
       \<and> restore (restore (snd (run (step_rw F) (declarations ds) sr))) =
           restore (snd (run (step_rw F) (declarations ds) sr))"
  by (simp add: cache_restore restore_idem restore_deletable
        declarations_flag_deletable declarations_rw_deletable del: run.simps)

theorem restore_removes_every_declared_name_witness:
  "(0::nat) < length [(''a'', Some (VNum 1)), (''a'', None)]
   \<and> fst (run (step_flag demo_table) (declarations [(''a'', Some (VNum 1)), (''a'', None)]) demo_flag) ! 0
       = Inr (Val VUndefined)
   \<and> map_of (props (restore (snd (run (step_flag demo_table)
         (declarations [(''a'', Some (VNum 1)), (''a'', None)]) demo_flag)))) ''a'' = None
   \<and> fst (run (step_rw demo_table) (declarations [(''a'', Some (VNum 1)), (''a'', None)]) demo_rw) ! 0
       = Inr (Val VUndefined)
   \<and> map_of (props (restore (snd (run (step_rw demo_table)
         (declarations [(''a'', Some (VNum 1)), (''a'', None)]) demo_rw)))) ''a'' = None"
proof -
  have h1: "(0::nat) < length [(''a'', Some (VNum 1)), (''a'', None :: val option)]" by simp
  have h2: "fst (run (step_flag demo_table) (declarations [(''a'', Some (VNum 1)), (''a'', None)]) demo_flag) ! 0
       = Inr (Val VUndefined)"
    by code_simp
  have h3: "fst (run (step_rw demo_table) (declarations [(''a'', Some (VNum 1)), (''a'', None)]) demo_rw) ! 0
       = Inr (Val VUndefined)"
    by code_simp
  from restore_removes_every_declared_name
         [of 0 "[(''a'', Some (VNum 1)), (''a'', None)]" demo_table demo_flag demo_rw] h1 h2 h3
  show ?thesis by simp
qed

section \<open>Spies are returned as they are\<close>

text \<open>Claim C8. When the subject is a function whose \<open>getCall\<close> is a function, every
  read of the declared property, the first one included, returns that function, and no
  function is called: the call log and the world stay as they were. This holds in both
  variants.\<close>

theorem mocked_subject_is_never_invoked:
  fixes sf :: "('w, fslot) engine" and sr :: "('w, val) engine"
  assumes mocked: "is_function (getCall F f)"
  shows "(fst (declare_flag n (Some (VFun f)) sf) = Inr () \<longrightarrow>
            fst (run (step_flag F) (replicate k (Get n)) (snd (declare_flag n (Some (VFun f)) sf)))
              = replicate k (Inr (Val (VFun f)))
          \<and> calls (snd (run (step_flag F) (replicate k (Get n)) (snd (declare_flag n (Some (VFun f)) sf))))
              = calls sf
          \<and> world (snd (run (step_flag F) (replicate k (Get n)) (snd (declare_flag n (Some (VFun f)) sf))))
              = world sf)
       \<and> (fst (declare_rw n (Some (VFun f)) sr) = Inr () \<longrightarrow>
            fst (run (step_rw F) (replicate k (Get n)) (snd (declare_rw n (Some (VFun f)) sr)))
              = replicate k (Inr (Val (VFun f)))
          \<and> calls (snd (run (step_rw F) (replicate k (Get n)) (snd (declare_rw n (Some (VFun f)) sr))))
              = calls sr
          \<and> world (snd (run (step_rw F) (replicate k (Get n)) (snd (declare_rw n (Some (VFun f)) sr))))
              = world sr)"
proof (intro conjI impI)
  assume "fst (declare_flag n (Some (VFun f)) sf) = Inr ()"
  then have d: "definable n sf" by (simp add: declare_flag_ok_iff)
  let ?s1 = "snd (declare_flag n (Some (VFun f)) sf)"
  let ?env = "\<lparr>subject = VFun f, isMemoized = False\<rparr>"
  have p: "map_of (props ?s1) n = Some (Accessor ?env
             (case map_of (props sf) n of None \<Rightarrow> False | Some cur \<Rightarrow> enumerable cur) True)"
    and c: "calls ?s1 = calls sf" and w: "world ?s1 = world sf"
    using d by (simp_all add: declare_flag_definable AList.update_conv' subject_of_def)
  have ni: "\<not> invocable F (subject ?env)" using mocked by simp
  from reads_flag_literal [OF p ni, of k] c w
  show "fst (run (step_flag F) (replicate k (Get n)) ?s1) = replicate k (Inr (Val (VFun f)))"
    and "calls (snd (run (step_flag F) (replicate k (Get n)) ?s1)) = calls sf"
    and "world (snd (run (step_flag F) (replicate k (Get n)) ?s1)) = world sf"
    by simp_all
next
  assume "fst (declare_rw n (Some (VFun f)) sr) = Inr ()"
  then have d: "definable n sr" by (simp add: declare_rw_ok_iff)
  let ?s1 = "snd (declare_rw n (Some (VFun f)) sr)"
  have p: "map_of (props ?s1) n = Some (Accessor (VFun f) True True)"
    and c: "calls ?s1 = calls sr" and w: "world ?s1 = world sr"
    using d by (simp_all add: declare_rw_definable AList.update_conv' subject_of_def)
  have ni: "\<not> invocable F (VFun f)" using mocked by simp
  from reads_rw_literal [OF p ni, of k] c w
  show "fst (run (step_rw F) (replicate k (Get n)) ?s1) = replicate k (Inr (Val (VFun f)))"
    and "calls (snd (run (step_rw F) (replicate k (Get n)) ?s1)) = calls sr"
    and "world (snd (run (step_rw F) (replicate k (Get n)) ?s1)) = world sr"
    by simp_all
qed

theorem mocked_subject_is_never_invoked_witness:
  "is_function (getCall demo_table 9)
   \<and> fst (declare_flag ''spy'' (Some (VFun 9)) demo_flag) = Inr ()
   \<and> fst (run (step_flag demo_table) (replicate 3 (Get ''spy''))
            (snd (declare_flag ''spy'' (Some (VFun 9)) demo_flag))) = replicate 3 (Inr (Val (VFun 9)))
   \<and> calls (snd (run (step_flag demo_table) (replicate 3 (Get ''spy''))
            (snd (declare_flag ''spy'' (Some (VFun 9)) demo_flag)))) = calls demo_flag
   \<and> fst (declare_rw ''spy'' (Some (VFun 9)) demo_rw) = Inr ()
   \<and> fst (run (step_rw demo_table) (replicate 3 (Get ''spy''))
            (snd (declare_rw ''spy'' (Some (VFun 9)) demo_rw))) = replicate 3 (Inr (Val (VFun 9)))
   \<and> calls (snd (run (step_rw demo_table) (replicate 3 (Get ''spy''))
            (snd (declare_rw ''spy'' (Some (VFun 9)) demo_rw)))) = calls demo_rw"
proof -
  have h: "is_function (getCall demo_table 9)" by (simp add: demo_table_def)
  have d1: "fst (declare_flag ''spy'' (Some (VFun 9)) demo_flag) = Inr ()" by code_simp
  have d2: "fst (declare_rw ''spy'' (Some (VFun 9)) demo_rw) = Inr ()" by code_simp
  from mocked_subject_is_never_invoked [OF h, of "''spy''" demo_flag 3 demo_rw] h d1 d2
  show ?thesis by blast
qed

section \<open>Errors of \<open>lazy\<close>\<close>




section \<open>The frame of restore\<close>




lemma guarded_effects [simp]:
  "guarded (s\<lparr>world := w, calls := cs\<rparr>) = guarded s"
  by (simp add: guarded_def)




















end
